theory Spec2Isabelle
  imports Main
begin

section \<open>The Polynomial class of isj\_proj6\_xsmahe01.py\<close>

text \<open>
  A polynomial object holds one attribute, the list of its coefficients in ascending
  degree. Coefficients and the points of evaluation are Python integers (unbounded),
  modelled as \<open>int\<close>; floating-point arguments are outside the model.
\<close>

record polynomial =
  components :: "int list"

subsection \<open>Errors and the statements that can raise\<close>

text \<open>
  \<open>IndexError\<close> and \<open>ValueError\<close> are Python's own exceptions. \<open>NotNumeric\<close> is not
  raised by the source: it marks a call of the constructor whose stored components
  would hold a nested list, a value the type \<open>int list\<close> cannot represent.
\<close>

datatype error = IndexError | ValueError | NotNumeric

type_synonym 'a result = "error + 'a"

definition result_bind :: "'a result \<Rightarrow> ('a \<Rightarrow> 'b result) \<Rightarrow> 'b result" where
  "result_bind m f = (case m of Inl e \<Rightarrow> Inl e | Inr x \<Rightarrow> f x)"

text \<open>
  Subscription \<open>xs[i]\<close> and the store \<open>xs[i] = v\<close>. Every index of the source comes from
  \<open>range\<close> or \<open>enumerate\<close> (or is \<open>degree - 1\<close> behind the test \<open>degree == 0\<close>), so it is
  never negative and a \<open>nat\<close>; beyond the end Python raises.
\<close>

definition getitem :: "'a list \<Rightarrow> nat \<Rightarrow> 'a result" where
  "getitem xs i = (if i < length xs then Inr (xs ! i) else Inl IndexError)"

definition setitem :: "'a list \<Rightarrow> nat \<Rightarrow> 'a \<Rightarrow> 'a list result" where
  "setitem xs i v = (if i < length xs then Inr (xs[i := v]) else Inl IndexError)"

text \<open>A \<open>for\<close> loop over a list whose body may raise: the first error ends the loop.\<close>

fun for_loop :: "'a list \<Rightarrow> ('a \<Rightarrow> 's \<Rightarrow> 's result) \<Rightarrow> 's \<Rightarrow> 's result" where
  "for_loop [] body s = Inr s"
| "for_loop (x # xs) body s = result_bind (body x s) (for_loop xs body)"

text \<open>\<open>range(n)\<close> for an integer \<open>n\<close>: empty when \<open>n \<le> 0\<close>.\<close>

definition py_range :: "int \<Rightarrow> nat list" where
  "py_range n = [0..<nat n]"

text \<open>\<open>[0] * n\<close>: the empty list when \<open>n \<le> 0\<close>.\<close>

definition zeros :: "int \<Rightarrow> int list" where
  "zeros n = replicate (nat n) 0"

subsection \<open>Decimal text of integers\<close>

text \<open>
  \<open>str(n)\<close> and the f-string field \<open>{n}\<close> of an integer: its decimal digits, most
  significant first, after a minus sign when it is negative. (The limit that recent
  interpreters put on the number of digits of such a conversion is not modelled.)
\<close>

definition digit_char :: "nat \<Rightarrow> char" where
  "digit_char d = char_of (48 + d)"

fun str_nat :: "nat \<Rightarrow> string" where
  "str_nat n = (if n < 10 then [digit_char n] else str_nat (n div 10) @ [digit_char (n mod 10)])"

declare str_nat.simps [simp del]

definition str_int :: "int \<Rightarrow> string" where
  "str_int i = (if i < 0 then CHR ''-'' # str_nat (nat (- i)) else str_nat (nat i))"

text \<open>
  \<open>int(s)\<close> of a string, on ASCII text: surrounding whitespace (the space and the
  control characters 0x09 to 0x0D, no other) is dropped, then an optional sign and
  decimal digits with single underscores between them; anything else raises
  ValueError (\<open>None\<close> here).
\<close>

definition is_space :: "char \<Rightarrow> bool" where
  "is_space c = (c \<in> set [CHR '' '', CHR 0x09, CHR 0x0A, CHR 0x0B, CHR 0x0C, CHR 0x0D])"

definition strip :: "string \<Rightarrow> string" where
  "strip s = rev (dropWhile is_space (rev (dropWhile is_space s)))"

definition digit_of :: "char \<Rightarrow> nat option" where
  "digit_of c = (let n = (of_char c :: nat) in if 48 \<le> n \<and> n \<le> 57 then Some (n - 48) else None)"

fun digits_value :: "string \<Rightarrow> nat \<Rightarrow> nat option" where
  "digits_value [] acc = Some acc"
| "digits_value [c] acc =
     (case digit_of c of Some v \<Rightarrow> Some (10 * acc + v) | None \<Rightarrow> None)"
| "digits_value (c # d # ds) acc =
     (if c = CHR ''_''
      then (case digit_of d of Some v \<Rightarrow> digits_value ds (10 * acc + v) | None \<Rightarrow> None)
      else (case digit_of c of Some v \<Rightarrow> digits_value (d # ds) (10 * acc + v) | None \<Rightarrow> None))"

definition unsigned_value :: "string \<Rightarrow> nat option" where
  "unsigned_value s =
     (case s of
        [] \<Rightarrow> None
      | c # cs \<Rightarrow> (case digit_of c of Some v \<Rightarrow> digits_value cs v | None \<Rightarrow> None))"

definition py_int :: "string \<Rightarrow> int option" where
  "py_int s =
     (case strip s of
        [] \<Rightarrow> None
      | c # cs \<Rightarrow>
          if c = CHR ''-'' then map_option (\<lambda>n. - int n) (unsigned_value cs)
          else if c = CHR ''+'' then map_option int (unsigned_value cs)
          else map_option int (unsigned_value (c # cs)))"

subsection \<open>The constructor\<close>

text \<open>
  \<open>Polynomial(*args, **kwargs)\<close>. A positional argument is a list or an integer; the
  keyword arguments are a dictionary, kept as the list of its items in call order
  (the keys of a dictionary are distinct).
\<close>

datatype arg = ListArg "int list" | IntArg int

fun int_of_arg :: "arg \<Rightarrow> int option" where
  "int_of_arg (IntArg i) = Some i"
| "int_of_arg (ListArg _) = None"

definition highest_degree_of :: "(string \<times> int) list \<Rightarrow> int result" where
  "highest_degree_of kwargs =
     for_loop (map fst kwargs)
       (\<lambda>degree highest_degree.
          case py_int (drop 1 degree) of
            None \<Rightarrow> Inl ValueError
          | Some d \<Rightarrow> Inr (if d > highest_degree then d else highest_degree))
       0"

definition init :: "arg list \<Rightarrow> (string \<times> int) list \<Rightarrow> polynomial result" where
  "init args kwargs =
     (case args of
        ListArg xs # _ \<Rightarrow> Inr \<lparr>components = xs\<rparr>
      | IntArg _ # _ \<Rightarrow>
          (case those (map int_of_arg args) of
             Some cs \<Rightarrow> Inr \<lparr>components = cs\<rparr>
           | None \<Rightarrow> Inl NotNumeric)
      | [] \<Rightarrow>
          if length kwargs > 0
          then result_bind (highest_degree_of kwargs)
                 (\<lambda>highest_degree.
                    Inr \<lparr>components =
                      map (\<lambda>degree.
                             case map_of kwargs (CHR ''x'' # str_int (int degree)) of
                               Some v \<Rightarrow> v
                             | None \<Rightarrow> 0)
                          (py_range (highest_degree + 1))\<rparr>)
          else Inr \<lparr>components = [0]\<rparr>)"

subsection \<open>Evaluation\<close>

text \<open>\<open>__count_value\<close>: the accumulator over \<open>enumerate(components)\<close>.\<close>

definition count_value :: "polynomial \<Rightarrow> int \<Rightarrow> int" where
  "count_value self x_value =
     fold (\<lambda>(degree, coefficient) accumulator. accumulator + coefficient * x_value ^ degree)
          (enumerate 0 (components self)) 0"

text \<open>\<open>at_value(x_1, x_2=None)\<close>.\<close>

definition at_value :: "polynomial \<Rightarrow> int \<Rightarrow> int option \<Rightarrow> int" where
  "at_value self x_1 x_2 =
     (let value_1 = count_value self x_1 in
      case x_2 of
        None \<Rightarrow> value_1
      | Some x2 \<Rightarrow> (let value_2 = count_value self x2 in value_2 - value_1))"

subsection \<open>Differentiation\<close>

text \<open>
  \<open>derivative\<close>: a list of \<open>len - 1\<close> zeros, filled by the loop over
  \<open>enumerate(components)\<close> that skips degree 0, then handed to the constructor.
\<close>

definition derivative :: "polynomial \<Rightarrow> polynomial result" where
  "derivative self =
     result_bind
       (for_loop (enumerate 0 (components self))
          (\<lambda>(degree, coefficient) result_components.
             if degree = 0 then Inr result_components
             else setitem result_components (degree - 1) (coefficient * int degree))
          (zeros (int (length (components self)) - 1)))
       (\<lambda>result_components. init [ListArg result_components] [])"

subsection \<open>Rendering\<close>

text \<open>
  \<open>__str__\<close>. The three pieces appended for a non-zero coefficient are named here; the
  loop runs over \<open>enumerate(reversed(components))\<close> and the leading sign mark is cut
  off at the end.
\<close>

definition sign_mark :: "int \<Rightarrow> string" where
  "sign_mark coefficient = (if coefficient > 0 then '' + '' else '' - '')"

definition coefficient_number :: "int \<Rightarrow> int \<Rightarrow> string" where
  "coefficient_number coefficient degree =
     (if \<bar>coefficient\<bar> \<noteq> 1 \<or> degree = 0 then str_int \<bar>coefficient\<bar> else [])"

definition variable_part :: "int \<Rightarrow> string" where
  "variable_part degree =
     (if degree > 1 then ''x^'' @ str_int degree else if degree = 1 then ''x'' else [])"

text \<open>The text one round of the loop appends for a non-zero coefficient.\<close>

definition term_text :: "int \<Rightarrow> int \<Rightarrow> string" where
  "term_text coefficient degree =
     sign_mark coefficient @ coefficient_number coefficient degree @ variable_part degree"

definition str_loop :: "int \<Rightarrow> (nat \<times> int) list \<Rightarrow> string \<Rightarrow> string" where
  "str_loop polynomial_degree items string_form =
     fold (\<lambda>(degree_complement, coefficient) string_form.
             if coefficient = 0 then string_form
             else (let degree = polynomial_degree - int degree_complement in
                   string_form @ sign_mark coefficient
                     @ coefficient_number coefficient degree @ variable_part degree))
          items string_form"

definition poly_str :: "polynomial \<Rightarrow> string" where
  "poly_str self =
     (let polynomial_degree = int (length (components self)) - 1 in
      if count_list (components self) 0 = length (components self) then ''0''
      else (let string_form =
                  str_loop polynomial_degree (enumerate 0 (rev (components self))) []
            in if take 2 string_form = '' +'' then drop 3 string_form
               else drop 1 string_form))"

subsection \<open>Equality\<close>

text \<open>
  \<open>__eq__(self, other)\<close>: \<open>other\<close> is any object; for one that is not a Polynomial the
  method returns \<open>NotImplemented\<close> (\<open>None\<close> here).
\<close>

datatype py_object = PolynomialObject polynomial | OtherObject

definition poly_eq :: "polynomial \<Rightarrow> py_object \<Rightarrow> bool option" where
  "poly_eq self other_object =
     (case other_object of
        OtherObject \<Rightarrow> None
      | PolynomialObject other \<Rightarrow>
          (let min_length = min (length (components self)) (length (components other)) in
           if take min_length (components self) \<noteq> take min_length (components other)
           then Some False
           else if length (components self) > length (components other)
           then Some (count_list (drop min_length (components self)) 0
                        = length (drop min_length (components self)))
           else Some (count_list (drop min_length (components other)) 0
                        = length (drop min_length (components other)))))"

subsection \<open>Addition\<close>

text \<open>The slice \<open>xs[k:]\<close> for an integer \<open>k\<close>; a negative \<open>k\<close> counts from the end.\<close>

definition slice_from :: "'a list \<Rightarrow> int \<Rightarrow> 'a list" where
  "slice_from xs k =
     (if k < 0 then drop (nat (int (length xs) + k)) xs else drop (nat k) xs)"

text \<open>
  \<open>__add__\<close>: the comprehension over \<open>range(highest_common_degree + 1)\<close> builds the sums
  one by one; the tail of the longer operand is appended.
\<close>

definition poly_add :: "polynomial \<Rightarrow> polynomial \<Rightarrow> polynomial result" where
  "poly_add self other =
     (let highest_common_degree =
            int (min (length (components self)) (length (components other))) - 1 in
      result_bind
        (for_loop (py_range (highest_common_degree + 1))
           (\<lambda>degree summaries.
              result_bind (getitem (components other) degree) (\<lambda>a.
              result_bind (getitem (components self) degree) (\<lambda>b.
                Inr (summaries @ [a + b]))))
           [])
        (\<lambda>components_summaries.
           init [ListArg
                  (if length (components other) < length (components self)
                   then components_summaries
                          @ slice_from (components self) (highest_common_degree + 1)
                   else components_summaries
                          @ slice_from (components other) (highest_common_degree + 1))]
                []))"

subsection \<open>Multiplication and power\<close>

text \<open>
  \<open>__multiply_components\<close>: the two nested loops, each \<open>+=\<close> reading the slot of the
  result, then the coefficient of the polynomial, and storing the sum.
\<close>

definition multiply_components :: "polynomial \<Rightarrow> int list \<Rightarrow> int list result" where
  "multiply_components self base_components =
     for_loop (py_range (int (length base_components)))
       (\<lambda>outer_degree result_components.
          result_bind (getitem base_components outer_degree) (\<lambda>outer_coefficient.
            for_loop (py_range (int (length (components self))))
              (\<lambda>inner_degree result_components.
                 result_bind (getitem result_components (outer_degree + inner_degree)) (\<lambda>old.
                 result_bind (getitem (components self) inner_degree) (\<lambda>c.
                   setitem result_components (outer_degree + inner_degree)
                     (old + outer_coefficient * c))))
              result_components))
       (zeros (int (length (components self)) + int (length base_components) - 1))"

text \<open>\<open>__pow__(self, power)\<close>, the parameter renamed \<open>exponent\<close>: \<open>range(power)\<close> rounds of
  multiplication, starting from \<open>[1]\<close>.\<close>

definition poly_pow :: "polynomial \<Rightarrow> int \<Rightarrow> polynomial result" where
  "poly_pow self exponent =
     result_bind
       (for_loop (py_range exponent)
          (\<lambda>_ result_components. multiply_components self result_components)
          [1])
       (\<lambda>result_components. init [ListArg result_components] [])"

subsection \<open>Notions of the specification\<close>

text \<open>A coefficient list padded with trailing zeros to length \<open>n\<close>.\<close>

definition pad :: "nat \<Rightarrow> int list \<Rightarrow> int list" where
  "pad n xs = xs @ replicate (n - length xs) 0"

text \<open>
  The discrete convolution of \<open>u\<close> (length \<open>m\<close>) and \<open>v\<close> (length \<open>k\<close>): \<open>m + k - 1\<close>
  entries (none when both are empty), entry \<open>n\<close> collecting \<open>u[i] * v[j]\<close> over all
  \<open>i < m\<close>, \<open>j < k\<close> with \<open>i + j = n\<close>.
\<close>

definition convolve :: "int list \<Rightarrow> int list \<Rightarrow> int list" where
  "convolve u v =
     map (\<lambda>n. sum_list (map (\<lambda>i. sum_list (map (\<lambda>j. if i + j = n then u ! i * v ! j else 0)
                                                 [0..<length v]))
                             [0..<length u]))
         [0..<length u + length v - 1]"

text \<open>The degrees of the non-zero coefficients, highest first.\<close>

definition nonzero_degrees :: "int list \<Rightarrow> nat list" where
  "nonzero_degrees cs = filter (\<lambda>d. cs ! d \<noteq> 0) (rev [0..<length cs])"

subsection \<open>Loop bodies without their checks\<close>

text \<open>
  The body of the loop of \<open>derivative\<close> as a function of the result list, used once
  the store is known to be in range.
\<close>

definition derive_step :: "nat \<times> int \<Rightarrow> int list \<Rightarrow> int list" where
  "derive_step = (\<lambda>(degree, coefficient) r.
      if degree = 0 then r else r[degree - 1 := coefficient * int degree])"

text \<open>
  The bodies of the inner and the outer loop of \<open>__multiply_components\<close>, for the
  sequences \<open>u\<close> (the base components) and \<open>v\<close> (the components of the polynomial).
\<close>

definition inner_step :: "nat \<Rightarrow> int \<Rightarrow> int list \<Rightarrow> nat \<Rightarrow> int list \<Rightarrow> int list" where
  "inner_step outer_degree outer_coefficient v =
     (\<lambda>inner_degree r. r[outer_degree + inner_degree :=
          r ! (outer_degree + inner_degree) + outer_coefficient * v ! inner_degree])"

definition outer_step :: "int list \<Rightarrow> int list \<Rightarrow> nat \<Rightarrow> int list \<Rightarrow> int list" where
  "outer_step u v =
     (\<lambda>outer_degree r. fold (inner_step outer_degree (u ! outer_degree) v) [0..<length v] r)"

section \<open>Evaluation at one and at two points\<close>

text \<open>
  C1. For every polynomial and every two numbers \<open>x1\<close>, \<open>x2\<close>, the two-argument
  evaluation \<open>at_value(x1, x2)\<close> is \<open>at_value(x2) - at_value(x1)\<close>, the second minus the
  first; for the coefficients \<open>[1, -3, 0, 2]\<close>, \<open>at_value(2)\<close> is 11 and
  \<open>at_value(2, 3)\<close> is 35.
\<close>

theorem at_value_two_arguments:
  "at_value p x1 (Some x2) = at_value p x2 None - at_value p x1 None
   \<and> at_value \<lparr>components = [1, -3, 0, 2]\<rparr> 2 None = 11
   \<and> at_value \<lparr>components = [1, -3, 0, 2]\<rparr> 2 (Some 3) = 35"
  by (simp add: at_value_def count_value_def enumerate_eq_zip upt_rec)

section \<open>Loops that do not raise\<close>

lemma result_bind_Inr [simp]: "result_bind (Inr x) f = f x"
  by (simp add: result_bind_def)

lemma result_bind_Inl [simp]: "result_bind (Inl e) f = Inl e"
  by (simp add: result_bind_def)

lemma for_loop_fold:
  assumes step: "\<And>x s. x \<in> set xs \<Longrightarrow> I s \<Longrightarrow> body x s = Inr (g x s) \<and> I (g x s)"
    and init: "I s"
  shows "for_loop xs body s = Inr (fold g xs s) \<and> I (fold g xs s)"
  using assms
proof (induction xs arbitrary: s)
  case Nil
  then show ?case by simp
next
  case (Cons x xs)
  have here: "body x s = Inr (g x s)" and inv: "I (g x s)"
    using Cons.prems(1) [of x s] Cons.prems(2) by simp_all
  have "for_loop xs body (g x s) = Inr (fold g xs (g x s)) \<and> I (fold g xs (g x s))"
    using Cons.IH [OF _ inv] Cons.prems(1) by simp
  then show ?case by (simp add: here)
qed

text \<open>The constructor on one list keeps that list.\<close>

lemma init_list [simp]: "init [ListArg xs] [] = Inr \<lparr>components = xs\<rparr>"
  by (simp add: init_def)

section \<open>Differentiation\<close>

lemma enumerate_snoc: "enumerate k (xs @ [x]) = enumerate k xs @ [(k + length xs, x)]"
  by (simp add: enumerate_append_eq)

lemma derive_fold:
  "length xs - 1 \<le> length r \<Longrightarrow>
   fold derive_step (enumerate 0 xs) r
     = map (\<lambda>d. xs ! d * int d) [1..<length xs] @ drop (length xs - 1) r"
proof (induction xs arbitrary: r rule: rev_induct)
  case Nil
  then show ?case by simp
next
  case (snoc x xs)
  show ?case
  proof (cases "xs = []")
    case True
    then show ?thesis by (simp add: derive_step_def)
  next
    case False
    then have pos: "0 < length xs" by simp
    have "length xs \<le> length r"
      using snoc.prems by simp
    with pos have le: "length xs - 1 \<le> length r" and lt: "length xs - 1 < length r"
      by arith+
    let ?front = "map (\<lambda>d. xs ! d * int d) [1..<length xs]"
    have front_len: "length ?front = length xs - 1" by simp
    have same: "map (\<lambda>d. (xs @ [x]) ! d * int d) [1..<length xs] = ?front"
      by (simp add: nth_append)
    have "fold derive_step (enumerate 0 (xs @ [x])) r
            = derive_step (length xs, x) (?front @ drop (length xs - 1) r)"
      by (simp add: enumerate_snoc snoc.IH [OF le])
    also have "\<dots> = (?front @ drop (length xs - 1) r)[length xs - 1 := x * int (length xs)]"
      using pos by (simp add: derive_step_def)
    also have "\<dots> = ?front @ (drop (length xs - 1) r)[0 := x * int (length xs)]"
      by (simp add: list_update_append)
    finally have folded: "fold derive_step (enumerate 0 (xs @ [x])) r
            = ?front @ (drop (length xs - 1) r)[0 := x * int (length xs)]" .
    have "Suc (length xs - 1) = length xs"
      using pos by simp
    then have "drop (length xs - 1) r = r ! (length xs - 1) # drop (length xs) r"
      using Cons_nth_drop_Suc [OF lt] by simp
    then have tail: "(drop (length xs - 1) r)[0 := x * int (length xs)]
            = x * int (length xs) # drop (length xs) r"
      by simp
    have "Suc 0 \<le> length xs"
      using False by (cases xs) simp_all
    then have "[1..<length (xs @ [x])] = [1..<length xs] @ [length xs]"
      by simp
    then have mapped: "map (\<lambda>d. (xs @ [x]) ! d * int d) [1..<length (xs @ [x])]
            = ?front @ [x * int (length xs)]"
      by (simp only: map_append same) simp
    have len: "length (xs @ [x]) - 1 = length xs"
      by simp
    show ?thesis
      unfolding folded tail mapped len by simp
  qed
qed

lemma derivative_components:
  "derivative p = Inr \<lparr>components = map (\<lambda>d. components p ! d * int d) [1..<length (components p)]\<rparr>"
proof -
  let ?xs = "components p"
  let ?body = "\<lambda>(degree, coefficient) result_components.
             if degree = 0 then Inr result_components
             else setitem result_components (degree - 1) (coefficient * int degree)"
  have "for_loop (enumerate 0 ?xs) ?body (zeros (int (length ?xs) - 1))
          = Inr (fold derive_step (enumerate 0 ?xs) (zeros (int (length ?xs) - 1)))
            \<and> length (fold derive_step (enumerate 0 ?xs) (zeros (int (length ?xs) - 1))) = length ?xs - 1"
  proof (rule for_loop_fold [where I = "\<lambda>r. length r = length ?xs - 1"])
    fix x :: "nat \<times> int" and s :: "int list"
    assume mem: "x \<in> set (enumerate 0 ?xs)" and len: "length s = length ?xs - 1"
    obtain d c where x: "x = (d, c)" by (cases x)
    have "d < length ?xs" using mem x by (auto simp: in_set_enumerate_eq)
    then show "?body x s = Inr (derive_step x s) \<and> length (derive_step x s) = length ?xs - 1"
      using len x by (auto simp: derive_step_def setitem_def)
  next
    show "length (zeros (int (length ?xs) - 1)) = length ?xs - 1"
      by (simp add: zeros_def nat_diff_distrib')
  qed
  moreover have "fold derive_step (enumerate 0 ?xs) (zeros (int (length ?xs) - 1))
          = map (\<lambda>d. ?xs ! d * int d) [1..<length ?xs]"
    by (subst derive_fold) (simp_all add: zeros_def nat_diff_distrib')
  ultimately show ?thesis
    by (simp add: derivative_def)
qed

section \<open>Lists of zeros\<close>

lemma count_list_all: "count_list xs a = length xs \<longleftrightarrow> (\<forall>x\<in>set xs. x = a)"
proof (induction xs)
  case Nil
  then show ?case by simp
next
  case (Cons x xs)
  have "count_list xs a \<le> length xs" by (rule count_le_length)
  with Cons show ?case by auto
qed

lemma count_list_replicate: "count_list xs a = length xs \<longleftrightarrow> xs = replicate (length xs) a"
proof
  assume "count_list xs a = length xs"
  then show "xs = replicate (length xs) a"
    by (simp add: count_list_all replicate_length_same)
next
  assume "xs = replicate (length xs) a"
  then have "\<forall>x\<in>set xs. x = a"
    by (metis in_set_replicate)
  then show "count_list xs a = length xs"
    by (simp add: count_list_all)
qed


lemma poly_eq_empty_zero:
  "poly_eq \<lparr>components = []\<rparr> (PolynomialObject \<lparr>components = [0]\<rparr>) = Some True"
  by (simp add: poly_eq_def)

lemma poly_str_zeros:
  "list_all (\<lambda>c. c = 0) (components p) \<Longrightarrow> poly_str p = ''0''"
  by (simp add: poly_str_def count_list_all list_all_iff)

section \<open>The derivative, coefficient by coefficient\<close>

text \<open>
  C6. For a polynomial with at least two components, \<open>derivative\<close> returns a polynomial
  with one component fewer, whose coefficient at degree \<open>d - 1\<close> is \<open>d\<close> times the
  coefficient of the input at degree \<open>d\<close>, for every \<open>d \<ge> 1\<close>; the coefficient of
  degree 0 is dropped. The derivative of a polynomial with exactly one component is
  equal, under \<open>==\<close>, to \<open>Polynomial([0])\<close>.
\<close>

theorem derivative_lowers_degree:
  "(2 \<le> length (components p) \<longrightarrow>
      derivative p
        = Inr \<lparr>components = map (\<lambda>d. int d * components p ! d) [1..<length (components p)]\<rparr>
      \<and> length (map (\<lambda>d. int d * components p ! d) [1..<length (components p)])
          = length (components p) - 1)
   \<and> (length (components p) = 1 \<longrightarrow>
      (\<exists>r. derivative p = Inr r
           \<and> poly_eq r (PolynomialObject \<lparr>components = [0]\<rparr>) = Some True))"
proof (intro conjI impI)
  show "derivative p
        = Inr \<lparr>components = map (\<lambda>d. int d * components p ! d) [1..<length (components p)]\<rparr>"
    by (simp add: derivative_components mult.commute)
  show "length (map (\<lambda>d. int d * components p ! d) [1..<length (components p)])
          = length (components p) - 1"
    by simp
next
  assume one: "length (components p) = 1"
  have "derivative p = Inr \<lparr>components = []\<rparr>"
    by (simp add: derivative_components one)
  then show "\<exists>r. derivative p = Inr r
           \<and> poly_eq r (PolynomialObject \<lparr>components = [0]\<rparr>) = Some True"
    by (simp add: poly_eq_empty_zero)
qed

theorem derivative_lowers_degree_witness:
  "2 \<le> length (components \<lparr>components = [1, -3, 0, 2]\<rparr>)
   \<and> derivative \<lparr>components = [1, -3, 0, 2]\<rparr> = Inr \<lparr>components = [-3, 0, 6]\<rparr>
   \<and> length [-3, 0, 6 :: int] = length (components \<lparr>components = [1, -3, 0, 2]\<rparr>) - 1
   \<and> length (components \<lparr>components = [2]\<rparr>) = 1
   \<and> (\<exists>r. derivative \<lparr>components = [2]\<rparr> = Inr r
          \<and> poly_eq r (PolynomialObject \<lparr>components = [0]\<rparr>) = Some True)"
  using derivative_lowers_degree [of "\<lparr>components = [1, -3, 0, 2]\<rparr>"]
        derivative_lowers_degree [of "\<lparr>components = [2]\<rparr>"]
  by (simp add: upt_rec)

text \<open>
  C10. For a polynomial with exactly one component, \<open>derivative\<close> returns a polynomial
  whose list of components is empty; that polynomial compares equal to
  \<open>Polynomial([0])\<close> under \<open>==\<close> and renders as \<open>"0"\<close>.
\<close>

theorem derivative_of_constant_is_empty:
  "length (components p) = 1 \<Longrightarrow>
     derivative p = Inr \<lparr>components = []\<rparr>
     \<and> poly_eq \<lparr>components = []\<rparr> (PolynomialObject \<lparr>components = [0]\<rparr>) = Some True
     \<and> poly_str \<lparr>components = []\<rparr> = ''0''"
  by (simp add: derivative_components poly_eq_empty_zero poly_str_zeros)

theorem derivative_of_constant_is_empty_witness:
  "length (components \<lparr>components = [2]\<rparr>) = 1
   \<and> derivative \<lparr>components = [2]\<rparr> = Inr \<lparr>components = []\<rparr>
   \<and> length (components \<lparr>components = []\<rparr>) = 0
   \<and> poly_eq \<lparr>components = []\<rparr> (PolynomialObject \<lparr>components = [0]\<rparr>) = Some True
   \<and> poly_str \<lparr>components = []\<rparr> = ''0''"
  using derivative_of_constant_is_empty [of "\<lparr>components = [2]\<rparr>"]
  by simp

section \<open>Rendering of the zero polynomial\<close>

text \<open>
  C7. A polynomial all of whose coefficients are zero renders as exactly \<open>"0"\<close>,
  whatever the length of its list of components (the list \<open>[0]\<close> included).
\<close>

theorem all_zero_renders_0:
  "list_all (\<lambda>c. c = 0) (components p) \<Longrightarrow> poly_str p = ''0''"
  by (simp add: poly_str_def count_list_all list_all_iff)

theorem all_zero_renders_0_witness:
  "list_all (\<lambda>c. c = 0) (components \<lparr>components = [0]\<rparr>)
   \<and> poly_str \<lparr>components = [0]\<rparr> = ''0''
   \<and> list_all (\<lambda>c. c = 0) (components \<lparr>components = [0, 0, 0]\<rparr>)
   \<and> poly_str \<lparr>components = [0, 0, 0]\<rparr> = ''0''"
  using all_zero_renders_0 [of "\<lparr>components = [0]\<rparr>"]
        all_zero_renders_0 [of "\<lparr>components = [0, 0, 0]\<rparr>"]
  by simp

section \<open>Equality up to trailing zeros\<close>

lemma pad_eq_longer:
  assumes "length xs \<le> length ys"
  shows "(pad (length ys) xs = pad (length ys) ys)
           \<longleftrightarrow> (take (length xs) ys = xs
                \<and> count_list (drop (length xs) ys) 0 = length (drop (length xs) ys))"
proof -
  have "(pad (length ys) xs = pad (length ys) ys)
          \<longleftrightarrow> xs @ replicate (length ys - length xs) 0 = ys"
    by (simp add: pad_def)
  also have "\<dots> \<longleftrightarrow> (xs = take (length xs) ys
                      \<and> replicate (length ys - length xs) 0 = drop (length xs) ys)"
    by (rule append_eq_conv_conj)
  finally have split: "(pad (length ys) xs = pad (length ys) ys)
          \<longleftrightarrow> (xs = take (length xs) ys
                \<and> replicate (length ys - length xs) 0 = drop (length xs) ys)" .
  have "count_list (drop (length xs) ys) 0 = length (drop (length xs) ys)
          \<longleftrightarrow> drop (length xs) ys = replicate (length (drop (length xs) ys)) 0"
    by (rule count_list_replicate)
  then have tail: "count_list (drop (length xs) ys) 0 = length (drop (length xs) ys)
          \<longleftrightarrow> replicate (length ys - length xs) 0 = drop (length xs) ys"
    by (simp add: eq_commute)
  show ?thesis
    unfolding split tail by (simp add: eq_commute)
qed

text \<open>
  C3. Two polynomials are equal under \<open>==\<close> exactly when, once the shorter list of
  components is padded with trailing zeros to the length of the longer, the two lists
  agree in every position; \<open>[1, 0, 1]\<close> equals \<open>[1, 0, 1, 0]\<close> and does not equal
  \<open>[1, 0, 1, 1]\<close>.
\<close>

theorem eq_is_padded_equality:
  "poly_eq p (PolynomialObject q)
     = Some (pad (max (length (components p)) (length (components q))) (components p)
             = pad (max (length (components p)) (length (components q))) (components q))
   \<and> poly_eq \<lparr>components = [1, 0, 1]\<rparr> (PolynomialObject \<lparr>components = [1, 0, 1, 0]\<rparr>)
       = Some True
   \<and> poly_eq \<lparr>components = [1, 0, 1]\<rparr> (PolynomialObject \<lparr>components = [1, 0, 1, 1]\<rparr>)
       = Some False"
proof (intro conjI)
  let ?a = "components p" and ?b = "components q"
  show "poly_eq p (PolynomialObject q)
     = Some (pad (max (length ?a) (length ?b)) ?a = pad (max (length ?a) (length ?b)) ?b)"
  proof (cases "length ?b < length ?a")
    case True
    then have le: "length ?b \<le> length ?a" by simp
    have "(pad (length ?a) ?a = pad (length ?a) ?b)
            \<longleftrightarrow> (take (length ?b) ?a = ?b
                 \<and> count_list (drop (length ?b) ?a) 0 = length (drop (length ?b) ?a))"
      using pad_eq_longer [OF le] by (simp add: eq_commute)
    with True le show ?thesis
      by (auto simp: poly_eq_def Let_def max_def min_def)
  next
    case False
    then have le: "length ?a \<le> length ?b" by simp
    have "(pad (length ?b) ?a = pad (length ?b) ?b)
            \<longleftrightarrow> (take (length ?a) ?b = ?a
                 \<and> count_list (drop (length ?a) ?b) 0 = length (drop (length ?a) ?b))"
      by (rule pad_eq_longer [OF le])
    with False le show ?thesis
      by (auto simp: poly_eq_def Let_def max_def min_def)
  qed
qed (simp_all add: poly_eq_def)


section \<open>Addition\<close>

lemma fold_snoc_map: "fold (\<lambda>d s. s @ [f d]) xs s0 = s0 @ map f xs"
  by (induction xs arbitrary: s0) simp_all

lemma sums_of_common:
  "map (\<lambda>d. ys ! d + xs ! d) [0..<min (length xs) (length ys)]
     = map (\<lambda>(x, y). x + y) (zip xs (ys :: int list))"
  by (rule nth_equalityI) (simp_all add: add.commute)

lemma add_loop:
  "for_loop [0..<min (length xs) (length ys)]
     (\<lambda>degree summaries.
        result_bind (getitem ys degree) (\<lambda>a.
        result_bind (getitem xs degree) (\<lambda>b.
          Inr (summaries @ [a + b]))))
     []
   = Inr (map (\<lambda>(x, y). x + y) (zip xs (ys :: int list)))"
proof -
  let ?body = "\<lambda>degree summaries.
        result_bind (getitem ys degree) (\<lambda>a.
        result_bind (getitem xs degree) (\<lambda>b.
          Inr (summaries @ [a + b])))"
  have "for_loop [0..<min (length xs) (length ys)] ?body []
          = Inr (fold (\<lambda>d s. s @ [ys ! d + xs ! d]) [0..<min (length xs) (length ys)] [])
            \<and> True"
    by (rule for_loop_fold [where I = "\<lambda>_. True"]) (simp_all add: getitem_def)
  then show ?thesis
    by (simp add: fold_snoc_map sums_of_common)
qed

lemma poly_add_components:
  "poly_add a b
     = Inr \<lparr>components =
             map (\<lambda>(x, y). x + y) (zip (components a) (components b))
             @ drop (min (length (components a)) (length (components b)))
                 (if length (components b) < length (components a)
                  then components a else components b)\<rparr>"
proof -
  let ?m = "min (length (components a)) (length (components b))"
  have range: "py_range (int ?m - 1 + 1) = [0..<?m]"
    by (simp add: py_range_def)
  have slice: "slice_from zs (int ?m - 1 + 1) = drop ?m zs" for zs :: "int list"
    by (simp add: slice_from_def)
  show ?thesis
    unfolding poly_add_def Let_def range slice add_loop
    by simp
qed

text \<open>
  C4. The components of \<open>a + b\<close> have length \<open>max(len(a), len(b))\<close>: the positions
  below \<open>min(len(a), len(b))\<close> hold the sums of the two coefficients, and the
  coefficients above are those of the longer operand, unchanged; trailing zeros are
  not trimmed. For instance \<open>[1, -3, 0, 2]\<close> plus \<open>[0, 2, 1]\<close> is \<open>[1, -1, 1, 2]\<close>.
\<close>

theorem add_pads_shorter:
  "(\<exists>r. poly_add a b = Inr r
     \<and> length (components r) = max (length (components a)) (length (components b))
     \<and> take (min (length (components a)) (length (components b))) (components r)
         = map (\<lambda>(x, y). x + y) (zip (components a) (components b))
     \<and> drop (min (length (components a)) (length (components b))) (components r)
         = drop (min (length (components a)) (length (components b)))
             (if length (components b) < length (components a)
              then components a else components b))
   \<and> poly_add \<lparr>components = [1, -3, 0, 2]\<rparr> \<lparr>components = [0, 2, 1]\<rparr>
       = Inr \<lparr>components = [1, -1, 1, 2]\<rparr>"
  by (simp add: poly_add_components max_def min_def)

section \<open>Power with a negative exponent\<close>

text \<open>
  C9, as the code has it. Power with a negative exponent signals no error: the loop
  over \<open>range(power)\<close> does not run, and the result is the polynomial with components
  \<open>[1]\<close>, as for the exponent 0.
\<close>

theorem negative_exponent_returns_one:
  "n < 0 \<Longrightarrow> poly_pow p n = Inr \<lparr>components = [1]\<rparr>"
  by (simp add: poly_pow_def py_range_def)

theorem negative_exponent_returns_one_witness:
  "(-1 :: int) < 0 \<and> poly_pow \<lparr>components = [-1, 1]\<rparr> (-1) = Inr \<lparr>components = [1]\<rparr>"
  using negative_exponent_returns_one [of "-1" "\<lparr>components = [-1, 1]\<rparr>"]
  by simp

text \<open>
  C9 as stated (a negative exponent fails with an error) does not hold:
  \<open>Polynomial(-1, 1) ** -1\<close> returns a polynomial.
\<close>

theorem negative_exponent_counterexample:
  "poly_pow \<lparr>components = [-1, 1]\<rparr> (-1) = Inr \<lparr>components = [1]\<rparr>
   \<and> \<not> isl (poly_pow \<lparr>components = [-1, 1]\<rparr> (-1))"
  by (simp add: poly_pow_def py_range_def)


section \<open>Multiplication as convolution\<close>

lemma fold_accumulate:
  "\<forall>x\<in>set xs. f x < length r \<Longrightarrow>
   fold (\<lambda>x r. r[f x := r ! f x + g x]) xs r
     = map (\<lambda>n. r ! n + sum_list (map (\<lambda>x. if f x = n then g x else 0) xs)) [0..<length (r :: int list)]"
proof (induction xs arbitrary: r)
  case Nil
  then show ?case by (simp add: map_nth)
next
  case (Cons x xs)
  let ?r = "r[f x := r ! f x + g x]"
  have "fold (\<lambda>x r. r[f x := r ! f x + g x]) (x # xs) r
          = map (\<lambda>n. ?r ! n + sum_list (map (\<lambda>x. if f x = n then g x else 0) xs)) [0..<length ?r]"
    using Cons.IH [of ?r] Cons.prems by simp
  also have "\<dots> = map (\<lambda>n. r ! n + sum_list (map (\<lambda>x. if f x = n then g x else 0) (x # xs)))
                       [0..<length r]"
    by (rule map_cong) (auto simp: nth_list_update)
  finally show ?case .
qed

lemma inner_fold:
  assumes "outer_degree + length v \<le> length r"
  shows "fold (inner_step outer_degree c v) [0..<length v] r
     = map (\<lambda>n. r ! n + sum_list (map (\<lambda>j. if outer_degree + j = n then c * v ! j else 0)
                                       [0..<length v]))
           [0..<length r]"
  unfolding inner_step_def
  by (rule fold_accumulate) (use assms in auto)

lemma outer_fold:
  "\<forall>i\<in>set is. i + length v \<le> length r \<Longrightarrow>
   fold (outer_step u v) is r
     = map (\<lambda>n. r ! n
              + sum_list (map (\<lambda>i. sum_list (map (\<lambda>j. if i + j = n then u ! i * v ! j else 0)
                                                  [0..<length v]))
                              is))
           [0..<length r]"
proof (induction "is" arbitrary: r)
  case Nil
  then show ?case by (simp add: map_nth)
next
  case (Cons i "is")
  let ?A = "\<lambda>i n. sum_list (map (\<lambda>j. if i + j = n then u ! i * v ! j else 0) [0..<length v])"
  let ?r = "map (\<lambda>n. r ! n + ?A i n) [0..<length r]"
  have first: "outer_step u v i r = ?r"
    unfolding outer_step_def using Cons.prems by (simp add: inner_fold)
  have "fold (outer_step u v) (i # is) r = fold (outer_step u v) is ?r"
    by (simp add: first)
  also have "\<dots> = map (\<lambda>n. ?r ! n + sum_list (map (\<lambda>i. ?A i n) is)) [0..<length ?r]"
    using Cons.prems by (intro Cons.IH) simp
  also have "\<dots> = map (\<lambda>n. r ! n + sum_list (map (\<lambda>i. ?A i n) (i # is))) [0..<length r]"
    by (rule map_cong) simp_all
  finally show ?case .
qed

lemma inner_loop:
  assumes "outer_degree + length v \<le> length r"
  shows "for_loop (py_range (int (length v)))
           (\<lambda>inner_degree result_components.
              result_bind (getitem result_components (outer_degree + inner_degree)) (\<lambda>old.
              result_bind (getitem v inner_degree) (\<lambda>c.
                setitem result_components (outer_degree + inner_degree)
                  (old + outer_coefficient * c))))
           r
         = Inr (fold (inner_step outer_degree outer_coefficient v) [0..<length v] r)
           \<and> length (fold (inner_step outer_degree outer_coefficient v) [0..<length v] r)
               = length r"
  unfolding py_range_def nat_int
  by (rule for_loop_fold [where I = "\<lambda>s. length s = length r"])
     (use assms in \<open>auto simp: getitem_def setitem_def inner_step_def\<close>)

lemma multiply_components_convolve:
  "multiply_components p u = Inr (convolve u (components p))"
proof -
  let ?v = "components p"
  let ?L = "nat (int (length ?v) + int (length u) - 1)"
  let ?body = "\<lambda>outer_degree result_components.
          result_bind (getitem u outer_degree) (\<lambda>outer_coefficient.
            for_loop (py_range (int (length ?v)))
              (\<lambda>inner_degree result_components.
                 result_bind (getitem result_components (outer_degree + inner_degree)) (\<lambda>old.
                 result_bind (getitem ?v inner_degree) (\<lambda>c.
                   setitem result_components (outer_degree + inner_degree)
                     (old + outer_coefficient * c))))
              result_components)"
  have L: "?L = length u + length ?v - 1"
    by (simp add: nat_diff_distrib' nat_add_distrib add.commute)
  have loop: "for_loop [0..<length u] ?body (replicate ?L 0)
          = Inr (fold (outer_step u ?v) [0..<length u] (replicate ?L 0))
            \<and> length (fold (outer_step u ?v) [0..<length u] (replicate ?L 0)) = ?L"
  proof (rule for_loop_fold [where I = "\<lambda>s. length s = ?L"])
    fix x :: nat and s :: "int list"
    assume mem: "x \<in> set [0..<length u]" and len: "length s = ?L"
    then have "x + length ?v \<le> length s"
      unfolding L by simp
    from inner_loop [OF this, of "u ! x"] mem len
    show "?body x s = Inr (outer_step u ?v x s) \<and> length (outer_step u ?v x s) = ?L"
      by (simp add: getitem_def outer_step_def)
  qed simp
  have "fold (outer_step u ?v) [0..<length u] (replicate ?L 0) = convolve u ?v"
  proof -
    have "\<forall>i\<in>set [0..<length u]. i + length ?v \<le> length (replicate ?L (0::int))"
      unfolding L by auto
    from outer_fold [OF this, of u]
    show ?thesis
      unfolding convolve_def
      by (simp add: L cong: map_cong)
  qed
  with loop show ?thesis
    by (simp add: multiply_components_def py_range_def zeros_def)
qed

lemma fold_const_funpow: "fold (\<lambda>_. f) xs s = (f ^^ length xs) s"
  by (induction xs arbitrary: s) (simp_all add: funpow_swap1)

lemma poly_pow_components:
  "poly_pow p (int n) = Inr \<lparr>components = ((\<lambda>u. convolve u (components p)) ^^ n) [1]\<rparr>"
proof -
  have "for_loop [0..<n] (\<lambda>_ result_components. multiply_components p result_components) [1]
          = Inr (fold (\<lambda>_ u. convolve u (components p)) [0..<n] [1]) \<and> True"
    by (rule for_loop_fold [where I = "\<lambda>_. True"])
       (simp_all add: multiply_components_convolve)
  then show ?thesis
    by (simp add: poly_pow_def py_range_def fold_const_funpow)
qed

lemma length_convolve: "length (convolve u v) = length u + length v - 1"
  by (simp add: convolve_def)

text \<open>
  C5. For a non-negative exponent \<open>n\<close>, \<open>p ** n\<close> is the result of starting from
  \<open>[1]\<close> and convolving with the components of \<open>p\<close> exactly \<open>n\<close> times; the
  convolution of sequences of lengths \<open>m\<close> and \<open>k\<close> has \<open>m + k - 1\<close> entries (none when
  both are empty), entry \<open>i + j\<close> collecting the products \<open>u[i] * v[j]\<close>; \<open>p ** 0\<close> has
  the components \<open>[1]\<close>, and \<open>Polynomial(-1, 1) ** 3\<close> the components \<open>[-1, 3, -3, 1]\<close>.
\<close>

theorem pow_is_repeated_convolution:
  "poly_pow p (int n) = Inr \<lparr>components = ((\<lambda>u. convolve u (components p)) ^^ n) [1]\<rparr>
   \<and> multiply_components p u = Inr (convolve u (components p))
   \<and> int (length (convolve u v)) = max 0 (int (length u) + int (length v) - 1)
   \<and> poly_pow p 0 = Inr \<lparr>components = [1]\<rparr>
   \<and> poly_pow \<lparr>components = [-1, 1]\<rparr> 3 = Inr \<lparr>components = [-1, 3, -3, 1]\<rparr>"
proof (intro conjI)
  show "poly_pow p (int n) = Inr \<lparr>components = ((\<lambda>u. convolve u (components p)) ^^ n) [1]\<rparr>"
    by (rule poly_pow_components)
  show "multiply_components p u = Inr (convolve u (components p))"
    by (rule multiply_components_convolve)
  show "int (length (convolve u v)) = max 0 (int (length u) + int (length v) - 1)"
    by (simp add: length_convolve)
  show "poly_pow p 0 = Inr \<lparr>components = [1]\<rparr>"
    using poly_pow_components [of p 0] by simp
  show "poly_pow \<lparr>components = [-1, 1]\<rparr> 3 = Inr \<lparr>components = [-1, 3, -3, 1]\<rparr>"
    by code_simp
qed


section \<open>The length of the components\<close>

lemma init_dense: "init (ListArg xs # rest) kwargs = Inr \<lparr>components = xs\<rparr>"
  by (simp add: init_def)

lemma those_int_args: "those (map int_of_arg (map IntArg cs)) = Some cs"
  by (induction cs) simp_all

lemma init_variadic: "init (map IntArg (c # cs)) kwargs = Inr \<lparr>components = c # cs\<rparr>"
  using those_int_args [of "c # cs"] by (simp add: init_def)

lemma init_no_arguments: "init [] [] = Inr \<lparr>components = [0]\<rparr>"
  by (simp add: init_def)

lemma for_loop_invariant:
  assumes "\<And>x s s'. x \<in> set xs \<Longrightarrow> I s \<Longrightarrow> body x s = Inr s' \<Longrightarrow> I s'"
    and "I s" and "for_loop xs body s = Inr t"
  shows "I t"
  using assms
proof (induction xs arbitrary: s)
  case Nil
  then show ?case by simp
next
  case (Cons x xs)
  from Cons.prems(3) obtain s' where here: "body x s = Inr s'"
      and rest: "for_loop xs body s' = Inr t"
    by (cases "body x s") simp_all
  have inv: "I s'"
    using Cons.prems(1) [of x s s'] Cons.prems(2) here by simp
  show ?case
  proof (rule Cons.IH)
    show "I u'" if "y \<in> set xs" "I u" "body y u = Inr u'" for y u u'
      using Cons.prems(1) [of y u u'] that by simp
    show "I s'" by (rule inv)
    show "for_loop xs body s' = Inr t" by (rule rest)
  qed
qed

lemma highest_degree_nonneg: "highest_degree_of kwargs = Inr h \<Longrightarrow> 0 \<le> h"
  unfolding highest_degree_of_def
  by (erule for_loop_invariant [where I = "\<lambda>h. 0 \<le> h", rotated 2])
     (auto split: option.splits if_splits)

lemma highest_degree_returns:
  assumes "list_all (\<lambda>key. py_int (drop 1 key) \<noteq> None) (map fst kwargs)"
  shows "\<exists>h. highest_degree_of kwargs = Inr h"
proof -
  let ?g = "\<lambda>degree highest_degree.
              if the (py_int (drop 1 degree)) > highest_degree
              then the (py_int (drop 1 degree)) else (highest_degree :: int)"
  have "for_loop (map fst kwargs)
          (\<lambda>degree highest_degree.
             case py_int (drop 1 degree) of
               None \<Rightarrow> Inl ValueError
             | Some d \<Rightarrow> Inr (if d > highest_degree then d else highest_degree))
          0
        = Inr (fold ?g (map fst kwargs) 0) \<and> True"
    by (rule for_loop_fold [where I = "\<lambda>_. True"])
       (use assms in \<open>auto simp: list_all_iff\<close>)
  then show ?thesis
    by (auto simp: highest_degree_of_def)
qed

lemma init_sparse_length:
  assumes "init [] kwargs = Inr r"
  shows "1 \<le> length (components r)"
proof (cases "kwargs = []")
  case True
  with assms show ?thesis by (auto simp: init_def)
next
  case False
  with assms obtain h where h: "highest_degree_of kwargs = Inr h"
      and r: "length (components r) = length (py_range (h + 1))"
    by (cases "highest_degree_of kwargs") (auto simp: init_def)
  from highest_degree_nonneg [OF h] r show ?thesis
    by (simp add: py_range_def)
qed

lemma init_sparse_returns:
  assumes "list_all (\<lambda>key. py_int (drop 1 key) \<noteq> None) (map fst kwargs)"
  shows "\<exists>r. init [] kwargs = Inr r"
proof -
  from highest_degree_returns [OF assms] obtain h where "highest_degree_of kwargs = Inr h"
    by blast
  then show ?thesis
    by (simp add: init_def)
qed

lemma poly_pow_any_exponent:
  "poly_pow p e = Inr \<lparr>components = ((\<lambda>u. convolve u (components p)) ^^ nat e) [1]\<rparr>"
proof -
  have "poly_pow p e = poly_pow p (int (nat e))"
    by (simp add: poly_pow_def py_range_def)
  then show ?thesis
    by (simp only: poly_pow_components)
qed

lemma length_power_components:
  "1 \<le> length v \<Longrightarrow> 1 \<le> length (((\<lambda>u. convolve u v) ^^ n) [1])"
  by (induction n) (simp_all add: length_convolve)

text \<open>
  C8, as the code has it. The list of components has length at least 1 after
  construction from a non-empty list, from one or more positional coefficients, from
  keyword arguments (whenever the constructor returns, and it returns when every key
  reads as a number after its first character) and from no arguments. Addition
  returns a polynomial of length at least 1 when one of its operands has one, power
  when its base has one, and derivative when its operand has length at least 2.
\<close>

theorem components_nonempty_where_kept:
  "(xs \<noteq> [] \<longrightarrow>
      (\<exists>r. init (ListArg xs # rest) kwargs = Inr r \<and> 1 \<le> length (components r)))
   \<and> (\<exists>r. init (map IntArg (c # cs)) kwargs = Inr r \<and> 1 \<le> length (components r))
   \<and> (list_all (\<lambda>key. py_int (drop 1 key) \<noteq> None) (map fst kwargs) \<longrightarrow>
        (\<exists>r. init [] kwargs = Inr r \<and> 1 \<le> length (components r)))
   \<and> (init [] kwargs = Inr q \<longrightarrow> 1 \<le> length (components q))
   \<and> init [] [] = Inr \<lparr>components = [0]\<rparr>
   \<and> (1 \<le> length (components a) \<or> 1 \<le> length (components b) \<longrightarrow>
        (\<exists>r. poly_add a b = Inr r \<and> 1 \<le> length (components r)))
   \<and> (1 \<le> length (components p) \<longrightarrow>
        (\<exists>r. poly_pow p n = Inr r \<and> 1 \<le> length (components r)))
   \<and> (2 \<le> length (components p) \<longrightarrow>
        (\<exists>r. derivative p = Inr r \<and> 1 \<le> length (components r)))"
proof (intro conjI impI)
  assume "xs \<noteq> []"
  then show "\<exists>r. init (ListArg xs # rest) kwargs = Inr r \<and> 1 \<le> length (components r)"
    by (cases xs) (simp_all add: init_dense)
next
  show "\<exists>r. init (map IntArg (c # cs)) kwargs = Inr r \<and> 1 \<le> length (components r)"
    by (simp only: init_variadic) simp
next
  assume "list_all (\<lambda>key. py_int (drop 1 key) \<noteq> None) (map fst kwargs)"
  from init_sparse_returns [OF this] obtain r where "init [] kwargs = Inr r"
    by blast
  with init_sparse_length [of kwargs r]
  show "\<exists>r. init [] kwargs = Inr r \<and> 1 \<le> length (components r)"
    by simp
next
  assume "init [] kwargs = Inr q"
  then show "1 \<le> length (components q)"
    by (rule init_sparse_length)
next
  show "init [] [] = Inr \<lparr>components = [0]\<rparr>"
    by (rule init_no_arguments)
next
  assume "1 \<le> length (components a) \<or> 1 \<le> length (components b)"
  then show "\<exists>r. poly_add a b = Inr r \<and> 1 \<le> length (components r)"
    by (auto simp: poly_add_components)
next
  assume "1 \<le> length (components p)"
  from length_power_components [OF this, of "nat n"]
  show "\<exists>r. poly_pow p n = Inr r \<and> 1 \<le> length (components r)"
    by (simp add: poly_pow_any_exponent)
next
  assume "2 \<le> length (components p)"
  then show "\<exists>r. derivative p = Inr r \<and> 1 \<le> length (components r)"
    by (simp add: derivative_components)
qed

text \<open>
  C8 as stated (every polynomial has at least one component, after every construction
  and every operation) does not hold: \<open>Polynomial([])\<close> and the derivative of
  \<open>Polynomial([2])\<close> have no component.
\<close>

theorem components_nonempty_counterexample:
  "init [ListArg []] [] = Inr \<lparr>components = []\<rparr>
   \<and> derivative \<lparr>components = [2]\<rparr> = Inr \<lparr>components = []\<rparr>
   \<and> \<not> 1 \<le> length (components \<lparr>components = []\<rparr>)"
  by (simp add: derivative_components)


theorem components_nonempty_where_kept_witness:
  "[1, -3, 0, 2] \<noteq> ([] :: int list)
   \<and> (\<exists>r. init [ListArg [1, -3, 0, 2]] [] = Inr r \<and> 1 \<le> length (components r))
   \<and> (\<exists>r. init (map IntArg [1, -3, 0, 2]) [] = Inr r \<and> 1 \<le> length (components r))
   \<and> list_all (\<lambda>key. py_int (drop 1 key) \<noteq> None)
         (map fst [(''x0'', 1 :: int), (''x3'', 2), (''x1'', -3)])
   \<and> (\<exists>r. init [] [(''x0'', 1), (''x3'', 2), (''x1'', -3)] = Inr r
          \<and> 1 \<le> length (components r))
   \<and> init [] [(''x0'', 1), (''x3'', 2), (''x1'', -3)] = Inr \<lparr>components = [1, -3, 0, 2]\<rparr>
   \<and> 1 \<le> length (components \<lparr>components = [1, -3, 0, 2]\<rparr>)
   \<and> (1 \<le> length (components \<lparr>components = [1, -3, 0, 2]\<rparr>)
        \<or> 1 \<le> length (components \<lparr>components = [0, 2, 1]\<rparr>))
   \<and> (\<exists>r. poly_add \<lparr>components = [1, -3, 0, 2]\<rparr> \<lparr>components = [0, 2, 1]\<rparr> = Inr r
          \<and> 1 \<le> length (components r))
   \<and> 2 \<le> length (components \<lparr>components = [-1, 1]\<rparr>)
   \<and> (\<exists>r. poly_pow \<lparr>components = [-1, 1]\<rparr> 2 = Inr r \<and> 1 \<le> length (components r))
   \<and> (\<exists>r. derivative \<lparr>components = [-1, 1]\<rparr> = Inr r \<and> 1 \<le> length (components r))"
proof -
  let ?kw = "[(''x0'', 1 :: int), (''x3'', 2), (''x1'', -3)]"
  have parse: "list_all (\<lambda>key. py_int (drop 1 key) \<noteq> None) (map fst ?kw)"
    by code_simp
  have built: "init [] ?kw = Inr \<lparr>components = [1, -3, 0, 2]\<rparr>"
    by code_simp
  from components_nonempty_where_kept
         [of "[1, -3, 0, 2]" "[]" "[]" 1 "[-3, 0, 2]" "\<lparr>components = [0]\<rparr>"
             "\<lparr>components = [1, -3, 0, 2]\<rparr>" "\<lparr>components = [0, 2, 1]\<rparr>"
             "\<lparr>components = [-1, 1]\<rparr>" 2]
  have operations:
   "(\<exists>r. init [ListArg [1, -3, 0, 2]] [] = Inr r \<and> 1 \<le> length (components r))
   \<and> (\<exists>r. init (map IntArg [1, -3, 0, 2]) [] = Inr r \<and> 1 \<le> length (components r))
   \<and> (\<exists>r. poly_add \<lparr>components = [1, -3, 0, 2]\<rparr> \<lparr>components = [0, 2, 1]\<rparr> = Inr r
          \<and> 1 \<le> length (components r))
   \<and> (\<exists>r. poly_pow \<lparr>components = [-1, 1]\<rparr> 2 = Inr r \<and> 1 \<le> length (components r))
   \<and> (\<exists>r. derivative \<lparr>components = [-1, 1]\<rparr> = Inr r \<and> 1 \<le> length (components r))"
    by simp
  from components_nonempty_where_kept
         [of "[]" "[]" ?kw 1 "[]" "\<lparr>components = [1, -3, 0, 2]\<rparr>"
             "\<lparr>components = []\<rparr>" "\<lparr>components = []\<rparr>" "\<lparr>components = []\<rparr>" 0]
       parse built
  have sparse: "(\<exists>r. init [] ?kw = Inr r \<and> 1 \<le> length (components r))
       \<and> 1 \<le> length (components \<lparr>components = [1, -3, 0, 2]\<rparr>)"
    by blast
  from operations sparse parse built show ?thesis
    by simp
qed



section \<open>Rendering of a polynomial with a non-zero coefficient\<close>

lemma str_nat_nonempty: "str_nat n \<noteq> []"
  by (subst str_nat.simps) simp

lemma str_int_nonempty: "str_int i \<noteq> []"
  by (simp add: str_int_def str_nat_nonempty)

lemma str_loop_concat:
  "str_loop deg items acc
     = acc @ concat (map (\<lambda>(dc, c). if c = 0 then [] else term_text c (deg - int dc)) items)"
  unfolding str_loop_def
  by (induction items arbitrary: acc) (auto simp: term_text_def Let_def)

lemma enumerate_rev:
  "enumerate 0 (rev cs) = map (\<lambda>d. (length cs - 1 - d, cs ! d)) (rev [0..<length cs])"
  by (rule nth_equalityI) (simp_all add: rev_nth nth_enumerate_eq)

lemma concat_map_skip:
  "concat (map (\<lambda>x. if P x then [] else f x) xs) = concat (map f (filter (\<lambda>x. \<not> P x) xs))"
  by (induction xs) simp_all

lemma str_loop_terms:
  "str_loop (int (length cs) - 1) (enumerate 0 (rev cs)) []
     = concat (map (\<lambda>d. term_text (cs ! d) (int d)) (nonzero_degrees cs))"
proof -
  let ?item = "\<lambda>(dc, c). if c = 0 then [] else term_text c (int (length cs) - 1 - int dc)"
  have "str_loop (int (length cs) - 1) (enumerate 0 (rev cs)) []
          = concat (map ?item (map (\<lambda>d. (length cs - 1 - d, cs ! d)) (rev [0..<length cs])))"
    by (simp only: str_loop_concat enumerate_rev append_Nil)
  also have "map ?item (map (\<lambda>d. (length cs - 1 - d, cs ! d)) (rev [0..<length cs]))
          = map (\<lambda>d. if cs ! d = 0 then [] else term_text (cs ! d) (int d)) (rev [0..<length cs])"
    unfolding map_map
  proof (rule map_cong)
    fix d assume "d \<in> set (rev [0..<length cs])"
    then have "d < length cs" by simp
    then have "int (length cs) - 1 - int (length cs - 1 - d) = int d" by simp
    then show "(?item \<circ> (\<lambda>d. (length cs - 1 - d, cs ! d))) d
                 = (if cs ! d = 0 then [] else term_text (cs ! d) (int d))"
      by (simp add: comp_def)
  qed simp
  finally show ?thesis
    by (simp add: concat_map_skip nonzero_degrees_def)
qed

lemma nonzero_degrees_set: "set (nonzero_degrees cs) = {d. d < length cs \<and> cs ! d \<noteq> 0}"
  by (auto simp: nonzero_degrees_def)

lemma nonzero_degrees_descending: "sorted_wrt (>) (nonzero_degrees cs)"
  unfolding nonzero_degrees_def
  by (rule sorted_wrt_filter) (simp add: sorted_wrt_rev)

lemma nonzero_degrees_nonempty:
  assumes "list_ex (\<lambda>c. c \<noteq> 0) cs"
  shows "nonzero_degrees cs \<noteq> []"
proof -
  from assms obtain d where "d < length cs" "cs ! d \<noteq> 0"
    by (auto simp: list_ex_iff in_set_conv_nth)
  then have "d \<in> set (nonzero_degrees cs)"
    by (simp add: nonzero_degrees_set)
  then show ?thesis by auto
qed

lemma strip_leading_sign:
  "(if take 2 (term_text c d @ rest) = '' +'' then drop 3 (term_text c d @ rest)
    else drop 1 (term_text c d @ rest))
   = (if c > 0 then [] else ''- '') @ coefficient_number c d @ variable_part d @ rest"
  by (simp add: term_text_def sign_mark_def)

lemma poly_str_terms:
  assumes "list_ex (\<lambda>c. c \<noteq> 0) (components p)"
    and "nonzero_degrees (components p) = d # ds"
  shows "poly_str p
     = (if components p ! d > 0 then [] else ''- '')
         @ coefficient_number (components p ! d) (int d) @ variable_part (int d)
         @ concat (map (\<lambda>e. term_text (components p ! e) (int e)) ds)"
proof -
  let ?rest = "concat (map (\<lambda>e. term_text (components p ! e) (int e)) ds)"
  have nonzero: "\<not> count_list (components p) 0 = length (components p)"
    using assms(1) by (auto simp: count_list_all list_ex_iff)
  have built: "str_loop (int (length (components p)) - 1) (enumerate 0 (rev (components p))) []
          = term_text (components p ! d) (int d) @ ?rest"
    by (simp add: str_loop_terms assms(2))
  have "poly_str p
          = (if take 2 (term_text (components p ! d) (int d) @ ?rest) = '' +''
             then drop 3 (term_text (components p ! d) (int d) @ ?rest)
             else drop 1 (term_text (components p ! d) (int d) @ ?rest))"
    unfolding poly_str_def Let_def built using nonzero by (simp only: if_False)
  then show ?thesis
    by (simp only: strip_leading_sign)
qed

lemma coefficient_number_cases:
  "coefficient_number c d = (if \<bar>c\<bar> = 1 \<and> d \<noteq> 0 then [] else str_int \<bar>c\<bar>)"
  by (simp add: coefficient_number_def)

text \<open>
  C2. The rendering of a polynomial with at least one non-zero coefficient lists its
  non-zero terms in strictly descending order of degree and skips the zero
  coefficients (the first term loses its separator, keeping \<open>"- "\<close> when negative); the
  numeral of a coefficient is left out exactly when its absolute value is 1 and the
  degree is not 0. \<open>[1, -3, 0, 2]\<close> renders as \<open>"2x^3 - 3x + 1"\<close> and \<open>[1, 1, -1]\<close> as
  \<open>"- x^2 + x + 1"\<close>.
\<close>

theorem rendering_lists_nonzero_terms:
  "(list_ex (\<lambda>c. c \<noteq> 0) (components p) \<longrightarrow>
      (\<exists>d ds. nonzero_degrees (components p) = d # ds
         \<and> poly_str p
             = (if components p ! d > 0 then [] else ''- '')
                 @ coefficient_number (components p ! d) (int d) @ variable_part (int d)
                 @ concat (map (\<lambda>e. term_text (components p ! e) (int e)) ds)))
   \<and> sorted_wrt (>) (nonzero_degrees (components p))
   \<and> set (nonzero_degrees (components p))
       = {d. d < length (components p) \<and> components p ! d \<noteq> 0}
   \<and> term_text c k = sign_mark c @ coefficient_number c k @ variable_part k
   \<and> coefficient_number c k = (if \<bar>c\<bar> = 1 \<and> k \<noteq> 0 then [] else str_int \<bar>c\<bar>)
   \<and> str_int \<bar>c\<bar> \<noteq> []
   \<and> poly_str \<lparr>components = [1, -3, 0, 2]\<rparr> = ''2x^3 - 3x + 1''
   \<and> poly_str \<lparr>components = [1, 1, -1]\<rparr> = ''- x^2 + x + 1''"
proof (intro conjI impI)
  assume some: "list_ex (\<lambda>c. c \<noteq> 0) (components p)"
  then obtain d ds where decomp: "nonzero_degrees (components p) = d # ds"
    using nonzero_degrees_nonempty [of "components p"]
    by (cases "nonzero_degrees (components p)") simp_all
  from poly_str_terms [OF some decomp] decomp
  show "\<exists>d ds. nonzero_degrees (components p) = d # ds
         \<and> poly_str p
             = (if components p ! d > 0 then [] else ''- '')
                 @ coefficient_number (components p ! d) (int d) @ variable_part (int d)
                 @ concat (map (\<lambda>e. term_text (components p ! e) (int e)) ds)"
    by blast
next
  show "sorted_wrt (>) (nonzero_degrees (components p))"
    by (rule nonzero_degrees_descending)
  show "set (nonzero_degrees (components p))
       = {d. d < length (components p) \<and> components p ! d \<noteq> 0}"
    by (rule nonzero_degrees_set)
  show "term_text c k = sign_mark c @ coefficient_number c k @ variable_part k"
    by (rule term_text_def)
  show "coefficient_number c k = (if \<bar>c\<bar> = 1 \<and> k \<noteq> 0 then [] else str_int \<bar>c\<bar>)"
    by (rule coefficient_number_cases)
  show "str_int \<bar>c\<bar> \<noteq> []"
    by (rule str_int_nonempty)
  show "poly_str \<lparr>components = [1, -3, 0, 2]\<rparr> = ''2x^3 - 3x + 1''"
    by code_simp
  show "poly_str \<lparr>components = [1, 1, -1]\<rparr> = ''- x^2 + x + 1''"
    by code_simp
qed

theorem rendering_lists_nonzero_terms_witness:
  "list_ex (\<lambda>c. c \<noteq> 0) (components \<lparr>components = [1, -3, 0, 2]\<rparr>)
   \<and> nonzero_degrees (components \<lparr>components = [1, -3, 0, 2]\<rparr>) = [3, 1, 0]
   \<and> poly_str \<lparr>components = [1, -3, 0, 2]\<rparr>
       = coefficient_number 2 3 @ variable_part 3 @ term_text (-3) 1 @ term_text 1 0
   \<and> coefficient_number 2 3 @ variable_part 3 @ term_text (-3) 1 @ term_text 1 0
       = ''2x^3 - 3x + 1''"
proof -
  let ?p = "\<lparr>components = [1, -3, 0, 2]\<rparr>"
  have some: "list_ex (\<lambda>c. c \<noteq> 0) (components ?p)"
    by simp
  have degrees: "nonzero_degrees (components ?p) = [3, 1, 0]"
    by code_simp
  have rendered: "coefficient_number 2 3 @ variable_part 3 @ term_text (-3) 1 @ term_text 1 0
       = ''2x^3 - 3x + 1''"
    by code_simp
  from rendering_lists_nonzero_terms [of ?p 0 0] some
  obtain d ds where decomp: "nonzero_degrees (components ?p) = d # ds"
    and shown: "poly_str ?p
             = (if components ?p ! d > 0 then [] else ''- '')
                 @ coefficient_number (components ?p ! d) (int d) @ variable_part (int d)
                 @ concat (map (\<lambda>e. term_text (components ?p ! e) (int e)) ds)"
    by blast
  from decomp degrees have "d = 3" and "ds = [1, 0]"
    by simp_all
  with shown have "poly_str ?p
       = coefficient_number 2 3 @ variable_part 3 @ term_text (-3) 1 @ term_text 1 0"
    by simp
  with some degrees rendered show ?thesis
    by (simp only: simp_thms)
qed

end
